theory Spec2Isabelle
  imports Main
begin

section \<open>Values and the object store\<close>

text \<open>
  The message payload is a JavaScript data value. The model has the primitive values and
  references to objects; an object is the list of its own enumerable properties, kept in a
  store that is indexed by address. Two references are the same object exactly when their
  addresses are equal, so that sharing between payload, snapshot and variables is visible.

  Numbers are integers here (no fractions, no NaN) and strings are ASCII. An array is an
  object whose keys are its indices; its \<open>length\<close> is not in the list, and the store does
  not tell an array from another object. Functions are not among the values. The order of
  a property list is the order in which the properties were added; the runtime lists
  index-like names first.
\<close>

datatype val =
    VUndefined
  | VNull
  | VBool bool
  | VNum int
  | VStr string
  | VRef nat

type_synonym obj = "(string \<times> val) list"

type_synonym store = "obj list"

text \<open>The test \<open>if (v)\<close>: which values count as true.\<close>

fun truthy :: "val \<Rightarrow> bool" where
  "truthy VUndefined = False"
| "truthy VNull = False"
| "truthy (VBool b) = b"
| "truthy (VNum n) = (n \<noteq> 0)"
| "truthy (VStr s) = (s \<noteq> [])"
| "truthy (VRef a) = True"

text \<open>
  An object made by \<open>{}\<close> has the prototype \<open>Object.prototype\<close>, and \<open>o[k]\<close> reads through
  it: for a name that the object has no property of, but \<open>Object.prototype\<close> has, the
  result is the inherited member. These are the twelve names of \<open>Object.prototype\<close>. The
  members are functions, but for \<open>__proto__\<close>, an accessor that gives and sets the prototype
  of the object.
\<close>

definition object_prototype_names :: "string list" where
  "object_prototype_names =
     [''constructor'', ''__defineGetter__'', ''__defineSetter__'', ''hasOwnProperty'',
      ''__lookupGetter__'', ''__lookupSetter__'', ''isPrototypeOf'', ''propertyIsEnumerable'',
      ''toString'', ''valueOf'', ''__proto__'', ''toLocaleString'']"

definition inherited :: "string \<Rightarrow> bool" where
  "inherited k = (k \<in> set object_prototype_names)"

text \<open>
  What \<open>o[k]\<close> finds on a property list with \<open>Object.prototype\<close> behind it: the property of
  the object itself, a member of \<open>Object.prototype\<close>, or nothing (\<open>undefined\<close>). A member is
  true as a condition, is neither a data value nor an array, and has no enumerable property
  of its own.
\<close>

datatype 'a found = Own 'a | Member | Absent

definition find_prop :: "(string \<times> 'a) list \<Rightarrow> string \<Rightarrow> 'a found" where
  "find_prop ps k =
     (case map_of ps k of
        Some x \<Rightarrow> Own x
      | None \<Rightarrow> if inherited k then Member else Absent)"

text \<open>
  \<open>get_prop\<close> reads the property of the object itself, \<open>undefined\<close> when there is none: it
  is \<open>o[k]\<close> for every name that \<open>Object.prototype\<close> does not have. \<open>set_prop\<close> is the
  assignment \<open>o[k] = v\<close> that makes or changes a property of the object itself.
\<close>

definition get_prop :: "obj \<Rightarrow> string \<Rightarrow> val" where
  "get_prop ps k = (case map_of ps k of None \<Rightarrow> VUndefined | Some v \<Rightarrow> v)"

fun set_prop :: "'k \<Rightarrow> 'v \<Rightarrow> ('k \<times> 'v) list \<Rightarrow> ('k \<times> 'v) list" where
  "set_prop k v [] = [(k, v)]"
| "set_prop k v ((k', v') # ps) =
     (if k = k' then (k, v) # ps else (k', v') # set_prop k v ps)"

subsection \<open>Well-formed stores, reachability, reading a value back\<close>

text \<open>
  In a store of \<open>n\<close> objects a reference is below \<open>n\<close>, and an object has each property name
  once.
\<close>

fun wf_val :: "nat \<Rightarrow> val \<Rightarrow> bool" where
  "wf_val n (VRef a) = (a < n)"
| "wf_val n _ = True"

definition wf_obj :: "nat \<Rightarrow> obj \<Rightarrow> bool" where
  "wf_obj n ps = (list_all (\<lambda>kv. wf_val n (snd kv)) ps \<and> distinct (map fst ps))"

definition wf_store :: "store \<Rightarrow> bool" where
  "wf_store h = list_all (wf_obj (length h)) h"

text \<open>The objects a value reaches: the object it refers to, and what its properties reach.\<close>

inductive_set reach :: "store \<Rightarrow> val \<Rightarrow> nat set" for h :: store and v :: val where
  root: "v = VRef a \<Longrightarrow> a \<in> reach h v"
| step: "a \<in> reach h v \<Longrightarrow> a < length h \<Longrightarrow> (k, VRef b) \<in> set (h ! a) \<Longrightarrow> b \<in> reach h v"

text \<open>
  What a program sees of a value when it follows properties to depth \<open>d\<close>. Two values are
  deep-equal when they read back the same at every depth.
\<close>

datatype tree =
    TUndefined
  | TNull
  | TBool bool
  | TNum int
  | TStr string
  | TObj "(string \<times> tree) list"
  | TCut

fun view :: "nat \<Rightarrow> store \<Rightarrow> val \<Rightarrow> tree" where
  "view d h VUndefined = TUndefined"
| "view d h VNull = TNull"
| "view d h (VBool b) = TBool b"
| "view d h (VNum n) = TNum n"
| "view d h (VStr s) = TStr s"
| "view 0 h (VRef a) = TCut"
| "view (Suc d) h (VRef a) =
     (if a < length h then TObj (map (\<lambda>kv. (fst kv, view d h (snd kv))) (h ! a)) else TCut)"

subsection \<open>The deep copy of the package \<open>clone\<close>\<close>

text \<open>
  \<open>clone(v)\<close> comes from the npm package of that name. It returns a primitive as it is.
  For an object it builds a copy of everything the object reaches, out of new objects, and
  keeps a table of the objects already copied, so that shared and cyclic structure is copied
  once: the result is the same graph at fresh addresses. The model builds that graph by
  copying every object of the store \<open>h\<close> to the address \<open>length h\<close> further on. The copies
  of objects that the argument does not reach are reachable from nothing.
\<close>

fun shift :: "nat \<Rightarrow> val \<Rightarrow> val" where
  "shift n (VRef a) = VRef (a + n)"
| "shift n v = v"

definition shift_obj :: "nat \<Rightarrow> obj \<Rightarrow> obj" where
  "shift_obj n ps = map (\<lambda>kv. (fst kv, shift n (snd kv))) ps"

fun clone :: "store \<Rightarrow> val \<Rightarrow> val \<times> store" where
  "clone h (VRef a) = (VRef (a + length h), h @ map (shift_obj (length h)) h)"
| "clone h v = (v, h)"


section \<open>The message envelope\<close>

text \<open>
  \<open>ESBMessage\<close>: the payload, the context stamped at construction, the snapshot of the
  payload and the variables. \<open>vars\<close> starts as the empty object \<open>{}\<close> and is only reached
  through the message, so it is kept as a property list in the message itself. Its
  prototype is \<open>Object.prototype\<close>: a message whose \<open>vars\<close> has been given another
  prototype is not among the messages of the model.
\<close>

record caller_info =
  user :: val
  system :: val
  caller_correlationId :: val

record context_info =
  createdTimestamp :: nat
  correlationId :: nat
  caller :: caller_info

record message =
  payload :: val
  mcontext :: context_info
  originalPayload :: val
  vars :: obj

section \<open>Components\<close>

text \<open>
  What a call can throw, and how a call ends. \<open>TypeError\<close> is what the runtime raises when
  something that is not a function is called or a property of \<open>undefined\<close> is read.
\<close>

datatype exn = TypeError | Error string

datatype outcome = Normal | Throw exn

text \<open>
  What leaves the graph: the line a logger prints, a failure record \<open>{component, message,
  cause}\<close> handed to a callback, a completion \<open>(null, message)\<close> handed to a callback, and
  an outbound request (verb, URL, body).
\<close>

datatype event =
    Logged nat nat
  | Failure nat nat exn
  | Completion nat nat
  | Requested nat nat string string val

text \<open>
  A callback is the caller's function. The model records each invocation and lets the
  callback answer by returning (\<open>None\<close>) or by throwing. A callback that changes the message
  or sends into the graph again is outside the model.
\<close>

type_synonym callback = "event \<Rightarrow> exn option"

text \<open>
  The seven constructors differ in the function they hand to \<open>ESBComponent\<close> and in the
  fields they set before (\<open>map\<close>, \<open>sleepMiliseconds\<close>, \<open>variableName\<close>, \<open>URL\<close>, \<open>method\<close>,
  \<open>pathArguments\<close>). The kind names the function and carries those fields.
\<close>

datatype kind =
    Logger
  | Mapper val
  | Sleep nat
  | VarSet string
  | VarGet string
  | Combine string
  | Call string string val
  | Result

text \<open>
  \<open>ESBComponent\<close> assigns \<open>fn\<close>, \<open>id\<close>, \<open>channels\<close> and \<open>callback\<close>. \<open>others\<close> holds any further
  property somebody assigned to the object; reading a property that no one assigned gives
  \<open>undefined\<close>. The targets in \<open>channels\<close> are addresses of components.
\<close>

record component =
  fn :: kind
  ident :: nat
  channels :: "(string \<times> nat list) list"
  callback :: "callback option"
  others :: obj

definition this_context :: "component \<Rightarrow> val" where
  "this_context node = get_prop (others node) ''context''"

text \<open>What \<open>setImmediate\<close> and \<open>setTimeout\<close> leave pending: a deferred \<open>send\<close>, a deferred \<open>next\<close>.\<close>

datatype task =
    Immediate nat nat
  | Timeout nat nat nat

section \<open>The world\<close>

text \<open>
  Messages and components are objects that are shared by reference and changed in place:
  they live in the world, and the code passes their addresses. \<open>uuids\<close> counts the
  identifiers handed out by \<open>uuidGenerator.v4()\<close>, each one new.

  \<open>restClient\<close> is the package \<open>node-rest-client\<close>, as far as \<open>send\<close> meets it: given the
  verb, the URL, the path arguments and the data of a request, \<open>get\<close> or \<open>post\<close> throws
  before it returns, or it takes the request and returns.
\<close>

type_synonym rest_client = "string \<Rightarrow> string \<Rightarrow> val \<Rightarrow> val \<Rightarrow> exn option"

record world =
  store :: store
  msgs :: "message list"
  comps :: "component list"
  trace :: "event list"
  tasks :: "task list"
  uuids :: nat
  restClient :: rest_client

type_synonym result = "(outcome \<times> world) option"

definition emit :: "event \<Rightarrow> world \<Rightarrow> world" where
  "emit ev w = w\<lparr>trace := trace w @ [ev]\<rparr>"

definition upd_msg :: "nat \<Rightarrow> (message \<Rightarrow> message) \<Rightarrow> world \<Rightarrow> world" where
  "upd_msg m f w = w\<lparr>msgs := (msgs w)[m := f (msgs w ! m)]\<rparr>"

subsection \<open>\<open>ESBMessage\<close>, \<open>createMessage\<close>\<close>

definition createMessage :: "nat \<Rightarrow> val \<Rightarrow> val \<Rightarrow> val \<Rightarrow> val \<Rightarrow> world \<Rightarrow> nat \<times> world" where
  "createMessage now p callerUser callerSystem callerCorrelationId w =
     (case clone (store w) p of (snapshot, h) \<Rightarrow>
        (length (msgs w),
         w\<lparr>store := h,
           msgs := msgs w @
             [\<lparr>payload = p,
               mcontext = \<lparr>createdTimestamp = now, correlationId = uuids w,
                 caller = \<lparr>user = callerUser, system = callerSystem,
                   caller_correlationId = callerCorrelationId\<rparr>\<rparr>,
               originalPayload = snapshot,
               vars = []\<rparr>],
           uuids := Suc (uuids w)\<rparr>))"

subsection \<open>Constructors\<close>

text \<open>
  \<open>ESBComponent.call(this, fn, callback)\<close> on a new object. The constructors of the mapper,
  the sleep, the variable and the combine component pass no callback, so \<open>callback\<close> is
  \<open>undefined\<close> there.
\<close>

definition ESBComponent :: "kind \<Rightarrow> callback option \<Rightarrow> world \<Rightarrow> nat \<times> world" where
  "ESBComponent f cb w =
     (length (comps w),
      w\<lparr>comps := comps w @
           [\<lparr>fn = f, ident = uuids w, channels = [], callback = cb, others = []\<rparr>],
        uuids := Suc (uuids w)\<rparr>)"

definition createLoggerComponent :: "callback option \<Rightarrow> world \<Rightarrow> nat \<times> world" where
  "createLoggerComponent cb w = ESBComponent Logger cb w"

definition createMapperComponent :: "val \<Rightarrow> world \<Rightarrow> nat \<times> world" where
  "createMapperComponent mp w = ESBComponent (Mapper mp) None w"

definition createSleepComponent :: "nat \<Rightarrow> world \<Rightarrow> nat \<times> world" where
  "createSleepComponent miliseconds w = ESBComponent (Sleep miliseconds) None w"

text \<open>\<open>toUpperCase\<close> on ASCII strings.\<close>

definition upper_char :: "char \<Rightarrow> char" where
  "upper_char c =
     (case map_of (zip ''abcdefghijklmnopqrstuvwxyz'' ''ABCDEFGHIJKLMNOPQRSTUVWXYZ'') c of
        None \<Rightarrow> c
      | Some u \<Rightarrow> u)"

definition toUpperCase :: "string \<Rightarrow> string" where
  "toUpperCase s = map upper_char s"

definition createVarComponent :: "string \<Rightarrow> string \<Rightarrow> world \<Rightarrow> nat \<times> world" where
  "createVarComponent variableName operation w =
     (if toUpperCase operation = ''SET'' then ESBComponent (VarSet variableName) None w
      else ESBComponent (VarGet variableName) None w)"

definition createCombineComponent :: "string \<Rightarrow> world \<Rightarrow> nat \<times> world" where
  "createCombineComponent variableName w = ESBComponent (Combine variableName) None w"

text \<open>
  \<open>createCallComponent\<close> hands five arguments to a constructor of four parameters
  \<open>(callback, requestURL, method, pathArguments)\<close>: the host becomes the URL, the URI the
  method, the method the path arguments.
\<close>

definition createCallComponent ::
  "callback option \<Rightarrow> string \<Rightarrow> string \<Rightarrow> string \<Rightarrow> val \<Rightarrow> world \<Rightarrow> nat \<times> world" where
  "createCallComponent cb host URI method pathArguments w =
     ESBComponent (Call host URI (VStr method)) cb w"

definition createResultComponent :: "callback option \<Rightarrow> world \<Rightarrow> nat \<times> world" where
  "createResultComponent cb w = ESBComponent Result cb w"

subsection \<open>\<open>connect\<close> and \<open>next\<close>\<close>

text \<open>
  Both take the channel name as an optional first argument: with one argument
  (\<open>arguments.length == 1\<close>) the name is \<open>'default'\<close>.
\<close>

definition channel_name :: "string option \<Rightarrow> string" where
  "channel_name ch = (case ch of None \<Rightarrow> ''default'' | Some name \<Rightarrow> name)"

text \<open>
  \<open>this.channels\<close> is made by \<open>{}\<close>. \<open>connect\<close> is \<open>if (!this.channels[channel])
  this.channels[channel] = []; this.channels[channel].push(component)\<close>. For a name of
  \<open>Object.prototype\<close> under which the component has no list, \<open>this.channels[channel]\<close> is the
  inherited member: no list is made, and the call of \<open>push\<close>, which the member does not
  have, is a \<open>TypeError\<close>.
\<close>

definition connect :: "world \<Rightarrow> nat \<Rightarrow> string option \<Rightarrow> nat \<Rightarrow> outcome \<times> world" where
  "connect w c ch target =
     (let name = channel_name ch;
          node = comps w ! c
      in case find_prop (channels node) name of
           Own ts \<Rightarrow>
             (Normal, w\<lparr>comps := (comps w)[c := node\<lparr>channels :=
                set_prop name (ts @ [target]) (channels node)\<rparr>]\<rparr>)
         | Member \<Rightarrow> (Throw TypeError, w)
         | Absent \<Rightarrow>
             (Normal, w\<lparr>comps := (comps w)[c := node\<lparr>channels :=
                set_prop name [target] (channels node)\<rparr>]\<rparr>))"

text \<open>
  \<open>next\<close> is \<open>if (this.channels[name]) this.channels[name].forEach(function (channel) {
  channel.send(message) })\<close>. \<open>S\<close> is \<open>channel.send\<close>, the \<open>send\<close> of the target. An
  exception that leaves one \<open>send\<close> leaves the loop. For a name of \<open>Object.prototype\<close> under
  which the component has no list, the condition holds and the call of \<open>forEach\<close> is a
  \<open>TypeError\<close>.
\<close>

fun forEach :: "(world \<Rightarrow> nat \<Rightarrow> nat \<Rightarrow> result) \<Rightarrow> nat list \<Rightarrow> nat \<Rightarrow> world \<Rightarrow> result" where
  "forEach S [] m w = Some (Normal, w)"
| "forEach S (t # ts) m w =
     (case S w t m of
        None \<Rightarrow> None
      | Some (Throw e, w') \<Rightarrow> Some (Throw e, w')
      | Some (Normal, w') \<Rightarrow> forEach S ts m w')"

definition next_message ::
  "(world \<Rightarrow> nat \<Rightarrow> nat \<Rightarrow> result) \<Rightarrow> world \<Rightarrow> nat \<Rightarrow> string option \<Rightarrow> nat \<Rightarrow> result" where
  "next_message S w c ch m =
     (case find_prop (channels (comps w ! c)) (channel_name ch) of
        Own ts \<Rightarrow> forEach S ts m w
      | Member \<Rightarrow> Some (Throw TypeError, w)
      | Absent \<Rightarrow> Some (Normal, w))"

subsection \<open>What the components do to the message\<close>

text \<open>
  The components below change the message, and some of their steps lead out of what the
  model has: a member of \<open>Object.prototype\<close> becomes the payload, the prototype of an object
  is replaced, the length of an array is set. For such a step the functions give \<open>None\<close>,
  and say nothing about what follows.

  Variable-set: \<open>message.vars[this.variableName] = clone(message.payload)\<close>. The assignment
  makes or changes a property of \<open>vars\<close> for every name but \<open>__proto__\<close>. Under that name,
  when \<open>vars\<close> has no such property of its own, the value goes to the accessor of
  \<open>Object.prototype\<close>: an object or \<open>null\<close> becomes the prototype of \<open>vars\<close>, any other value
  is dropped.
\<close>

definition store_var :: "string \<Rightarrow> nat \<Rightarrow> world \<Rightarrow> world option" where
  "store_var variableName m w =
     (case clone (store w) (payload (msgs w ! m)) of (copy, h) \<Rightarrow>
        if variableName = ''__proto__'' \<and> map_of (vars (msgs w ! m)) variableName = None
        then (case copy of
                VRef a \<Rightarrow> None
              | VNull \<Rightarrow> None
              | _ \<Rightarrow> Some (w\<lparr>store := h\<rparr>))
        else Some (upd_msg m (\<lambda>msg. msg\<lparr>vars := set_prop variableName copy (vars msg)\<rparr>)
                     (w\<lparr>store := h\<rparr>)))"

text \<open>
  Variable-get: \<open>if (message.vars[this.variableName]) message.payload =
  clone(message.vars[this.variableName])\<close>. When the name is one of \<open>Object.prototype\<close> and
  \<open>vars\<close> has no such property of its own, the condition holds and the payload becomes the
  inherited member.
\<close>

definition restore_var :: "string \<Rightarrow> nat \<Rightarrow> world \<Rightarrow> world option" where
  "restore_var variableName m w =
     (case find_prop (vars (msgs w ! m)) variableName of
        Own v \<Rightarrow>
          if truthy v
          then (case clone (store w) v of (copy, h) \<Rightarrow>
                  Some (upd_msg m (\<lambda>msg. msg\<lparr>payload := copy\<rparr>) (w\<lparr>store := h\<rparr>)))
          else Some w
      | Member \<Rightarrow> None
      | Absent \<Rightarrow> Some w)"

text \<open>
  \<open>Object.assign(target, source)\<close> copies the own enumerable properties of the source, in
  order, by assignment to the target. An object has its properties; a string has one per
  character, under the index; other primitives have none. The target \<open>undefined\<close> or \<open>null\<close>
  is a \<open>TypeError\<close>. A primitive target is wrapped in a temporary object, which is lost; on
  a wrapped string the indices and \<open>length\<close> cannot be assigned.

  On an object two names are not plain assignments: \<open>__proto__\<close> goes to the accessor of
  \<open>Object.prototype\<close> and replaces the prototype of the target, and \<open>length\<close> sets the
  length of the target when the target is an array. The model has neither, and gives
  \<open>None\<close> when the source has a property of either name.
\<close>

fun digits :: "nat \<Rightarrow> string" where
  "digits n =
     (if n < 10 then [''0123456789'' ! n]
      else digits (n div 10) @ [''0123456789'' ! (n mod 10)])"

fun own_props :: "store \<Rightarrow> val \<Rightarrow> obj" where
  "own_props h (VRef b) = (if b < length h then h ! b else [])"
| "own_props h (VStr s) = map (\<lambda>i. (digits i, VStr [s ! i])) [0..<length s]"
| "own_props h v = []"

definition assign :: "store \<Rightarrow> val \<Rightarrow> obj \<Rightarrow> (exn + store) option" where
  "assign h target ps =
     (case target of
        VUndefined \<Rightarrow> Some (Inl TypeError)
      | VNull \<Rightarrow> Some (Inl TypeError)
      | VRef a \<Rightarrow>
          (if list_ex (\<lambda>kv. fst kv = ''__proto__'' \<or> fst kv = ''length'') ps then None
           else Some (Inr (h[a := fold (\<lambda>kv. set_prop (fst kv) (snd kv)) ps (h ! a)])))
      | VStr s \<Rightarrow>
          (if list_ex (\<lambda>kv. fst kv = ''length'' \<or> fst kv \<in> set (map digits [0..<length s])) ps
           then Some (Inl TypeError) else Some (Inr h))
      | _ \<Rightarrow> Some (Inr h))"

text \<open>
  Combine: \<open>var parialPayload = {}; if (message.vars[this.variableName]) parialPayload =
  message.vars[this.variableName]; Object.assign(message.payload, parialPayload)\<close>. The
  object made by \<open>{}\<close> is the new object at the end of the store. When the name is one of
  \<open>Object.prototype\<close> and \<open>vars\<close> has no such property of its own, \<open>parialPayload\<close> is the
  inherited member, which has nothing to copy.
\<close>

definition combine :: "string \<Rightarrow> nat \<Rightarrow> world \<Rightarrow> (outcome \<times> world) option" where
  "combine variableName m w =
     (let msg = msgs w ! m;
          h = store w @ [[]];
          source =
            (case find_prop (vars msg) variableName of
               Own v \<Rightarrow> own_props h (if truthy v then v else VRef (length (store w)))
             | Member \<Rightarrow> []
             | Absent \<Rightarrow> own_props h (VRef (length (store w))))
      in case assign h (payload msg) source of
           None \<Rightarrow> None
         | Some (Inl e) \<Rightarrow> Some (Throw e, w\<lparr>store := h\<rparr>)
         | Some (Inr h') \<Rightarrow> Some (Normal, w\<lparr>store := h'\<rparr>))"

text \<open>
  The mapper calls \<open>objectMapper(source, this.map)\<close> of the package \<open>object-mapper\<close>, which is
  a parameter of the model: from the store, the source and the map it gives the new payload
  and the store with the objects it made, or it throws.
\<close>

type_synonym object_mapper = "store \<Rightarrow> val \<Rightarrow> val \<Rightarrow> exn + val \<times> store"

definition apply_map :: "object_mapper \<Rightarrow> val \<Rightarrow> nat \<Rightarrow> world \<Rightarrow> outcome \<times> world" where
  "apply_map objectMapper mp m w =
     (case objectMapper (store w) (payload (msgs w ! m)) mp of
        Inl e \<Rightarrow> (Throw e, w)
      | Inr (resultPayload, h) \<Rightarrow>
          (Normal, upd_msg m (\<lambda>msg. msg\<lparr>payload := resultPayload\<rparr>) (w\<lparr>store := h\<rparr>)))"

text \<open>Calling \<open>this.callback\<close>: a \<open>TypeError\<close> when there is none.\<close>

definition call_callback :: "nat \<Rightarrow> event \<Rightarrow> world \<Rightarrow> outcome \<times> world" where
  "call_callback c ev w =
     (case callback (comps w ! c) of
        None \<Rightarrow> (Throw TypeError, w)
      | Some cb \<Rightarrow> (case cb ev of None \<Rightarrow> (Normal, emit ev w) | Some e \<Rightarrow> (Throw e, emit ev w)))"

subsection \<open>The functions of the seven components, \<open>send\<close>, \<open>post\<close>\<close>

text \<open>
  \<open>work\<close> is \<open>this.fn(context, message)\<close> with \<open>this\<close> the component at \<open>c\<close>. No function looks
  at its first argument. The call component hands its request to the client, with the path
  arguments when they are true as a condition and with the payload as data when the verb is
  not \<open>GET\<close>; what happens when the answer arrives is not part of \<open>send\<close>.

  The calls of \<open>util.debugMessage\<close>, \<open>util.debugComponent\<close> and \<open>util.debugCall\<close> write
  diagnostics and change neither the message nor the graph; the model leaves them out. It
  keeps what evaluating their arguments can do: the first line of \<open>send\<close> and of \<open>post\<close>
  reads \<open>message.context.correlationId\<close>, a \<open>TypeError\<close> when the message is not a message.
\<close>

definition work ::
  "object_mapper \<Rightarrow> (world \<Rightarrow> nat \<Rightarrow> nat \<Rightarrow> result) \<Rightarrow> val \<Rightarrow> nat \<Rightarrow> nat \<Rightarrow> world \<Rightarrow> result" where
  "work objectMapper S ctx c m w =
     (case fn (comps w ! c) of
        Logger \<Rightarrow> next_message S w c None m
      | Mapper mp \<Rightarrow>
          (case apply_map objectMapper mp m w of
             (Normal, w') \<Rightarrow> next_message S w' c None m
           | (Throw e, w') \<Rightarrow> Some (Throw e, w'))
      | Sleep miliseconds \<Rightarrow> Some (Normal, w\<lparr>tasks := tasks w @ [Timeout miliseconds c m]\<rparr>)
      | VarSet variableName \<Rightarrow>
          (case store_var variableName m w of
             None \<Rightarrow> None
           | Some w' \<Rightarrow> next_message S w' c None m)
      | VarGet variableName \<Rightarrow>
          (case restore_var variableName m w of
             None \<Rightarrow> None
           | Some w' \<Rightarrow> next_message S w' c None m)
      | Combine variableName \<Rightarrow>
          (case combine variableName m w of
             None \<Rightarrow> None
           | Some (Normal, w') \<Rightarrow> next_message S w' c None m
           | Some (Throw e, w') \<Rightarrow> Some (Throw e, w'))
      | Call URL method pathArguments \<Rightarrow>
          (let verb = (if toUpperCase method = ''GET'' then ''GET'' else ''POST'');
               path = (if truthy pathArguments then pathArguments else VUndefined);
               body = (if toUpperCase method = ''GET'' then VUndefined else payload (msgs w ! m))
           in case restClient w verb URL path body of
                Some e \<Rightarrow> Some (Throw e, w)
              | None \<Rightarrow> Some (Normal, emit (Requested c m verb URL body) w))
      | Result \<Rightarrow> Some (call_callback c (Completion c m) w))"

text \<open>
  \<open>ESBComponent.prototype.send\<close>. Its first line reads \<open>message.context.correlationId\<close>,
  outside the \<open>try\<close>; then \<open>try { this.fn(this.context, message) } catch (error) {
  this.callback({component: this, message: message, cause: error}) }\<close>.
\<close>

definition base_send ::
  "object_mapper \<Rightarrow> (world \<Rightarrow> nat \<Rightarrow> nat \<Rightarrow> result) \<Rightarrow> world \<Rightarrow> nat \<Rightarrow> nat \<Rightarrow> result" where
  "base_send objectMapper S w c m =
     (if length (msgs w) \<le> m then Some (Throw TypeError, w)
      else case work objectMapper S (this_context (comps w ! c)) c m w of
             None \<Rightarrow> None
           | Some (Normal, w') \<Rightarrow> Some (Normal, w')
           | Some (Throw error, w') \<Rightarrow> Some (call_callback c (Failure c m error) w'))"

text \<open>
  \<open>send\<close> as a call finds it: \<open>ESBLoggerComponent.prototype.send\<close> prints and goes on to the
  base method, the other components inherit the base method, and what is not a component
  has no \<open>send\<close>.
\<close>

definition send_method ::
  "object_mapper \<Rightarrow> (world \<Rightarrow> nat \<Rightarrow> nat \<Rightarrow> result) \<Rightarrow> world \<Rightarrow> nat \<Rightarrow> nat \<Rightarrow> result" where
  "send_method objectMapper S w c m =
     (if length (comps w) \<le> c then Some (Throw TypeError, w)
      else if fn (comps w ! c) = Logger then base_send objectMapper S (emit (Logged c m) w) c m
      else base_send objectMapper S w c m)"

text \<open>
  A graph may have cycles, and then \<open>send\<close> need not return. \<open>send n\<close> follows calls of
  \<open>send\<close> nested up to depth \<open>n\<close>. \<open>None\<close> says that the model has no result: the depth was
  not enough, or a step led out of what the model has.
\<close>

fun send :: "nat \<Rightarrow> object_mapper \<Rightarrow> world \<Rightarrow> nat \<Rightarrow> nat \<Rightarrow> result" where
  "send 0 objectMapper w c m = None"
| "send (Suc n) objectMapper w c m = send_method objectMapper (send n objectMapper) w c m"

text \<open>
  \<open>post\<close>: the same first line as \<open>send\<close>, then \<open>setImmediate(function () {
  self.send(message) })\<close>. The function is left pending; a later turn of the event loop
  takes a pending function and runs it.
\<close>

definition post :: "world \<Rightarrow> nat \<Rightarrow> nat \<Rightarrow> outcome \<times> world" where
  "post w c m =
     (if length (msgs w) \<le> m then (Throw TypeError, w)
      else (Normal, w\<lparr>tasks := tasks w @ [Immediate c m]\<rparr>))"

fun run_task :: "nat \<Rightarrow> object_mapper \<Rightarrow> task \<Rightarrow> world \<Rightarrow> result" where
  "run_task n objectMapper (Immediate c m) w = send n objectMapper w c m"
| "run_task n objectMapper (Timeout miliseconds c m) w =
     next_message (send n objectMapper) w c None m"

definition turn :: "nat \<Rightarrow> object_mapper \<Rightarrow> nat \<Rightarrow> world \<Rightarrow> result" where
  "turn n objectMapper i w =
     (if i < length (tasks w)
      then run_task n objectMapper (tasks w ! i) (w\<lparr>tasks := take i (tasks w) @ drop (Suc i) (tasks w)\<rparr>)
      else Some (Normal, w))"

section \<open>Notions used in the statements\<close>

text \<open>
  A set of addresses is closed in a store when it holds only objects of the store and every
  object that one of them refers to.
\<close>

definition closed :: "store \<Rightarrow> nat set \<Rightarrow> bool" where
  "closed h S = (\<forall>a\<in>S. a < length h \<and> (\<forall>k b. (k, VRef b) \<in> set (h ! a) \<longrightarrow> b \<in> S))"

text \<open>
  The targets registered under a name: the list that the component has under it, the empty
  list when it has none.
\<close>

definition registered :: "world \<Rightarrow> nat \<Rightarrow> string \<Rightarrow> nat list" where
  "registered w c name =
     (case map_of (channels (comps w ! c)) name of None \<Rightarrow> [] | Some ts \<Rightarrow> ts)"

text \<open>
  A store of plain objects: no property of an object is named like a member of
  \<open>Object.prototype\<close>. The statements about the copies that the variable components make
  are for such stores.
\<close>

definition plain_obj :: "obj \<Rightarrow> bool" where
  "plain_obj ps = list_all (\<lambda>kv. \<not> inherited (fst kv)) ps"

definition plain_store :: "store \<Rightarrow> bool" where
  "plain_store h = list_all plain_obj h"


text \<open>
  A client that takes every request. A world with the one object \<open>{a: 1}\<close>, for the
  examples.
\<close>

definition taking :: rest_client where
  "taking verb URL path body = None"

definition example_world :: world where
  "example_world =
     \<lparr>store = [[(''a'', VNum 1)]], msgs = [], comps = [], trace = [], tasks = [], uuids = 0,
      restClient = taking\<rparr>"

text \<open>The world before anything is made, and a mapper that returns its source.\<close>

definition empty_world :: world where
  "empty_world =
     \<lparr>store = [], msgs = [], comps = [], trace = [], tasks = [], uuids = 0, restClient = taking\<rparr>"

definition no_mapper :: object_mapper where
  "no_mapper h source mp = Inr (source, h)"

text \<open>
  The single changes of the world that \<open>send\<close> is made of: an event leaves the graph, a
  function is left pending or taken up, and a mapper, variable or combine component at \<open>c\<close>
  changes the message \<open>m\<close>.
\<close>

inductive local_step :: "object_mapper \<Rightarrow> world \<Rightarrow> world \<Rightarrow> bool" for objectMapper where
  emits: "local_step objectMapper w (emit ev w)"
| defers: "local_step objectMapper w (w\<lparr>tasks := tasks w @ [t]\<rparr>)"
| takes: "local_step objectMapper w (w\<lparr>tasks := take i (tasks w) @ drop (Suc i) (tasks w)\<rparr>)"
| maps: "c < length (comps w) \<Longrightarrow> m < length (msgs w) \<Longrightarrow> fn (comps w ! c) = Mapper mp \<Longrightarrow>
     local_step objectMapper w (snd (apply_map objectMapper mp m w))"
| stores: "c < length (comps w) \<Longrightarrow> m < length (msgs w) \<Longrightarrow> fn (comps w ! c) = VarSet name \<Longrightarrow>
     store_var name m w = Some w' \<Longrightarrow> local_step objectMapper w w'"
| restores: "c < length (comps w) \<Longrightarrow> m < length (msgs w) \<Longrightarrow> fn (comps w ! c) = VarGet name \<Longrightarrow>
     restore_var name m w = Some w' \<Longrightarrow> local_step objectMapper w w'"
| combines: "c < length (comps w) \<Longrightarrow> m < length (msgs w) \<Longrightarrow> fn (comps w ! c) = Combine name \<Longrightarrow>
     combine name m w = Some (r, w') \<Longrightarrow> local_step objectMapper w w'"

text \<open>
  The worlds that the functions of the module build: components come from the seven
  \<open>create\<close> functions and are wired by \<open>connect\<close>; messages are created, sent and posted,
  pending functions run; the caller's own code changes payload objects and messages.
\<close>

inductive built :: "world \<Rightarrow> bool" where
  nothing: "comps w = [] \<Longrightarrow> built w"
| logger: "built w \<Longrightarrow> built (snd (createLoggerComponent cb w))"
| mapper: "built w \<Longrightarrow> built (snd (createMapperComponent mp w))"
| sleep: "built w \<Longrightarrow> built (snd (createSleepComponent miliseconds w))"
| var: "built w \<Longrightarrow> built (snd (createVarComponent variableName operation w))"
| combine: "built w \<Longrightarrow> built (snd (createCombineComponent variableName w))"
| call: "built w \<Longrightarrow> built (snd (createCallComponent cb host URI method pathArguments w))"
| result: "built w \<Longrightarrow> built (snd (createResultComponent cb w))"
| connected: "built w \<Longrightarrow> built (snd (connect w c ch target))"
| message: "built w \<Longrightarrow>
     built (snd (createMessage now p callerUser callerSystem callerCorrelationId w))"
| sent: "built w \<Longrightarrow> send n objectMapper w c m = Some (r, w') \<Longrightarrow> built w'"
| posted: "built w \<Longrightarrow> built (snd (post w c m))"
| turned: "built w \<Longrightarrow> turn n objectMapper i w = Some (r, w') \<Longrightarrow> built w'"
| changed: "built w \<Longrightarrow> built (w\<lparr>store := h, msgs := ms\<rparr>)"

text \<open>Every call of \<open>S\<close> that returns is made of such changes.\<close>

definition made_of_steps :: "object_mapper \<Rightarrow> (world \<Rightarrow> nat \<Rightarrow> nat \<Rightarrow> result) \<Rightarrow> bool" where
  "made_of_steps objectMapper S =
     (\<forall>w t m r w'. S w t m = Some (r, w') \<longrightarrow> (local_step objectMapper)\<^sup>*\<^sup>* w w')"






text \<open>A store that has grown and kept its objects.\<close>

definition extends :: "store \<Rightarrow> store \<Rightarrow> bool" where
  "extends h h' = (length h \<le> length h' \<and> (\<forall>a<length h. h' ! a = h ! a))"



definition round_trip_world :: world where
  "round_trip_world =
     snd (connect
       (snd (createVarComponent ''snap'' ''get''
         (snd (createVarComponent ''snap'' ''set''
           (snd (createMessage 0 (VRef 0) VNull VNull VNull example_world)))))) 0 None 1)"




definition null_payload_world :: world where
  "null_payload_world =
     snd (createCombineComponent ''v'' (snd (createMessage 0 VNull VNull VNull VNull empty_world)))"

definition var_world :: "world \<Rightarrow> val \<Rightarrow> val \<Rightarrow> world" where
  "var_world w stored current =
     upd_msg 0 (\<lambda>msg. msg\<lparr>payload := current\<rparr>)
       (the (store_var ''n'' 0
         (snd (createVarComponent ''n'' ''get''
           (snd (createMessage 0 stored VNull VNull VNull w))))))"

section \<open>Stores: closed sets, views, copies\<close>

lemma view_agree:
  assumes "closed h S" and "\<forall>a\<in>S. a < length h' \<and> h' ! a = h ! a"
  shows "(\<forall>a. v = VRef a \<longrightarrow> a \<in> S) \<Longrightarrow> view d h' v = view d h v"
proof (induction d arbitrary: v)
  case 0
  then show ?case by (cases v) simp_all
next
  case (Suc d)
  show ?case
  proof (cases v)
    case (VRef a)
    with Suc.prems have aS: "a \<in> S" by simp
    with assms have lt: "a < length h" "a < length h'" and eq: "h' ! a = h ! a"
      by (auto simp: closed_def)
    have "view d h' (snd kv) = view d h (snd kv)" if "kv \<in> set (h ! a)" for kv
    proof (rule Suc.IH, intro allI impI)
      fix b assume "snd kv = VRef b"
      with that have "(fst kv, VRef b) \<in> set (h ! a)" by (metis prod.collapse)
      with assms(1) aS show "b \<in> S" by (auto simp: closed_def)
    qed
    with VRef lt eq show ?thesis by simp
  qed simp_all
qed

lemma reach_closed:
  assumes "closed h S" and "\<forall>a. v = VRef a \<longrightarrow> a \<in> S"
  shows "reach h v \<subseteq> S"
proof
  fix x assume "x \<in> reach h v"
  then show "x \<in> S"
  proof induction
    case (root a)
    with assms(2) show ?case by simp
  next
    case (step a k b)
    with assms(1) show ?case by (auto simp: closed_def)
  qed
qed

lemma wf_objD: "wf_obj n ps \<Longrightarrow> (k, VRef b) \<in> set ps \<Longrightarrow> b < n"
  by (auto simp: wf_obj_def list_all_iff)

lemma wf_obj_valD: "wf_obj n ps \<Longrightarrow> kv \<in> set ps \<Longrightarrow> wf_val n (snd kv)"
  by (auto simp: wf_obj_def list_all_iff)

lemma wf_store_nth: "wf_store h \<Longrightarrow> a < length h \<Longrightarrow> wf_obj (length h) (h ! a)"
  by (auto simp: wf_store_def list_all_iff)

lemma closed_wf: "wf_store h \<Longrightarrow> closed h {0..<length h}"
  by (auto simp: closed_def wf_store_def list_all_iff dest!: wf_objD[rotated])

lemma shift_Ref_iff: "shift n v = VRef b \<longleftrightarrow> (\<exists>a. v = VRef a \<and> b = a + n)"
  by (cases v) auto

lemma shift_obj_RefD:
  "(k, VRef b) \<in> set (shift_obj n ps) \<Longrightarrow> \<exists>b'. b = b' + n \<and> (k, VRef b') \<in> set ps"
proof -
  assume "(k, VRef b) \<in> set (shift_obj n ps)"
  then obtain v where v: "(k, v) \<in> set ps" and "shift n v = VRef b"
    by (auto simp: shift_obj_def)
  then show ?thesis by (cases v) auto
qed

lemma closed_copy:
  assumes "wf_store h"
  shows "closed (h @ map (shift_obj (length h)) h) {length h..<length h + length h}"
  unfolding closed_def
proof (intro ballI conjI allI impI)
  fix a assume a: "a \<in> {length h..<length h + length h}"
  then show "a < length (h @ map (shift_obj (length h)) h)" by simp
  fix k b assume "(k, VRef b) \<in> set ((h @ map (shift_obj (length h)) h) ! a)"
  moreover from a have lt: "a - length h < length h" by auto
  ultimately have "(k, VRef b) \<in> set (shift_obj (length h) (h ! (a - length h)))"
    using a by (simp add: nth_append)
  then obtain b' where b: "b = b' + length h" and "(k, VRef b') \<in> set (h ! (a - length h))"
    by (auto dest: shift_obj_RefD)
  with lt have "b' < length h" using assms
    by (auto simp: wf_store_def list_all_iff dest: wf_objD)
  with b show "b \<in> {length h..<length h + length h}" by simp
qed


lemma closed_empty: "closed h {}"
  by (simp add: closed_def)

lemma reach_prim: "\<forall>a. v \<noteq> VRef a \<Longrightarrow> reach h v = {}"
  using reach_closed[OF closed_empty, of v h] by auto

lemma view_shift:
  assumes "wf_store h" and h': "h' = h @ map (shift_obj (length h)) h"
  shows "wf_val (length h) v \<Longrightarrow> view d h' (shift (length h) v) = view d h v"
proof (induction d arbitrary: v)
  case 0
  then show ?case by (cases v) simp_all
next
  case (Suc d)
  show ?case
  proof (cases v)
    case (VRef a)
    with Suc.prems have lt: "a < length h" by simp
    have nth: "h' ! (a + length h) = shift_obj (length h) (h ! a)"
      using lt by (simp add: h' nth_append)
    have len: "a + length h < length h'"
      using lt by (simp add: h')
    have "view d h' (shift (length h) (snd kv)) = view d h (snd kv)"
      if "kv \<in> set (h ! a)" for kv
    proof (rule Suc.IH)
      from assms(1) lt that show "wf_val (length h) (snd kv)"
        by (auto dest: wf_store_nth wf_obj_valD)
    qed
    then have "map (\<lambda>kv. (fst kv, view d h' (snd kv))) (shift_obj (length h) (h ! a))
        = map (\<lambda>kv. (fst kv, view d h (snd kv))) (h ! a)"
      by (simp add: shift_obj_def comp_def)
    with VRef lt nth len show ?thesis by simp
  qed simp_all
qed

lemma clone_view:
  assumes "wf_store h" "wf_val (length h) v" "clone h v = (v', h')"
  shows "view d h' v' = view d h v"
proof (cases v)
  case (VRef a)
  with assms(3) have "h' = h @ map (shift_obj (length h)) h" "v' = shift (length h) v"
    by auto
  with view_shift[OF assms(1) this(1) assms(2)] show ?thesis by simp
qed (use assms(3) in auto)

lemma clone_length: "clone h v = (v', h') \<Longrightarrow> length h \<le> length h'"
  by (cases v) auto

lemma clone_old: "clone h v = (v', h') \<Longrightarrow> a < length h \<Longrightarrow> h' ! a = h ! a"
  by (cases v) (auto simp: nth_append)

lemma clone_closed:
  "wf_store h \<Longrightarrow> clone h v = (v', h') \<Longrightarrow> closed h' {length h..<length h'}"
  using closed_copy[of h] by (cases v) (auto simp: closed_empty)

lemma clone_root:
  "wf_val (length h) v \<Longrightarrow> clone h v = (v', h') \<Longrightarrow> v' = VRef b \<Longrightarrow> b \<in> {length h..<length h'}"
  by (cases v) auto

lemma clone_fresh:
  assumes "wf_store h" "wf_val (length h) v" "clone h v = (v', h')"
  shows "reach h' v' \<subseteq> {length h..<length h'}"
  using reach_closed[OF clone_closed[OF assms(1,3)]] clone_root[OF assms(2,3)] by blast






lemma view_frame:
  assumes "closed h S" "\<forall>a. v = VRef a \<longrightarrow> a \<in> S" "\<forall>a\<in>S. a < length h' \<and> h' ! a = h ! a"
  shows "view d h' v = view d h v"
  using view_agree[OF assms(1,3)] assms(2) by blast


lemma wf_val_root: "wf_val n v \<Longrightarrow> \<forall>a. v = VRef a \<longrightarrow> a \<in> {0..<n}"
  by (cases v) auto

section \<open>The snapshot taken at construction\<close>



section \<open>\<open>send\<close> is made of single changes\<close>

lemma made_of_stepsD: "made_of_steps om S \<Longrightarrow> S w t m = Some (r, w') \<Longrightarrow> (local_step om)\<^sup>*\<^sup>* w w'"
  by (auto simp: made_of_steps_def)

lemma forEach_steps:
  assumes S: "made_of_steps om S"
  shows "forEach S ts m w = Some (r, w') \<Longrightarrow> (local_step om)\<^sup>*\<^sup>* w w'"
proof (induction ts arbitrary: w)
  case Nil
  then show ?case by simp
next
  case (Cons t ts)
  then obtain r1 w1 where 1: "S w t m = Some (r1, w1)"
    by (auto split: option.splits)
  show ?case
  proof (cases r1)
    case Normal
    with 1 Cons.prems have "forEach S ts m w1 = Some (r, w')" by simp
    from made_of_stepsD[OF S 1] Cons.IH[OF this] show ?thesis by simp
  next
    case (Throw e)
    with 1 Cons.prems made_of_stepsD[OF S 1] show ?thesis by simp
  qed
qed

lemma next_message_steps:
  assumes "made_of_steps om S"
    and "next_message S w c ch m = Some (r, w')"
  shows "(local_step om)\<^sup>*\<^sup>* w w'"
  using assms(2) forEach_steps[OF assms(1)]
  by (auto simp: next_message_def split: found.splits)

lemma call_callback_steps: "call_callback c ev w = (r, w') \<Longrightarrow> (local_step om)\<^sup>*\<^sup>* w w'"
  by (auto simp: call_callback_def split: option.splits intro: local_step.emits)

lemma work_steps:
  assumes S: "made_of_steps om S"
    and c: "c < length (comps w)" and m: "m < length (msgs w)"
    and w: "work om S ctx c m w = Some (r, w')"
  shows "(local_step om)\<^sup>*\<^sup>* w w'"
proof (cases "fn (comps w ! c)")
  case Logger
  with w show ?thesis by (auto simp: work_def intro: next_message_steps[OF S])
next
  case (Mapper mp)
  have 1: "local_step om w (snd (apply_map om mp m w))"
    by (rule local_step.maps[OF c m Mapper])
  show ?thesis
  proof (cases "apply_map om mp m w")
    case (Pair r1 w1)
    with 1 have "(local_step om)\<^sup>*\<^sup>* w w1" by simp
    moreover have "(local_step om)\<^sup>*\<^sup>* w1 w'"
      using w Mapper Pair by (cases r1) (auto simp: work_def intro: next_message_steps[OF S])
    ultimately show ?thesis by simp
  qed
next
  case (Sleep ms)
  with w show ?thesis by (auto simp: work_def intro: local_step.defers)
next
  case (VarSet name)
  with w obtain w1 where 1: "store_var name m w = Some w1"
    and 2: "next_message S w1 c None m = Some (r, w')"
    by (auto simp: work_def split: option.splits)
  have "local_step om w w1"
    by (rule local_step.stores[OF c m VarSet 1])
  with next_message_steps[OF S 2] show ?thesis
    by (rule converse_rtranclp_into_rtranclp[rotated])
next
  case (VarGet name)
  with w obtain w1 where 1: "restore_var name m w = Some w1"
    and 2: "next_message S w1 c None m = Some (r, w')"
    by (auto simp: work_def split: option.splits)
  have "local_step om w w1"
    by (rule local_step.restores[OF c m VarGet 1])
  with next_message_steps[OF S 2] show ?thesis
    by (rule converse_rtranclp_into_rtranclp[rotated])
next
  case (Combine name)
  with w obtain r1 w1 where 1: "combine name m w = Some (r1, w1)"
    by (auto simp: work_def split: option.splits)
  have step: "(local_step om)\<^sup>*\<^sup>* w w1"
    using local_step.combines[OF c m Combine 1, of om] by simp
  have "(local_step om)\<^sup>*\<^sup>* w1 w'"
    using w Combine 1 by (cases r1) (auto simp: work_def intro: next_message_steps[OF S])
  with step show ?thesis by simp
next
  case (Call url verb args)
  with w show ?thesis
    by (auto simp: work_def Let_def split: option.splits intro: local_step.emits)
next
  case Result
  with w show ?thesis by (auto simp: work_def intro: call_callback_steps)
qed

lemma base_send_steps:
  assumes S: "made_of_steps om S"
    and c: "c < length (comps w)"
    and w: "base_send om S w c m = Some (r, w')"
  shows "(local_step om)\<^sup>*\<^sup>* w w'"
proof (cases "length (msgs w) \<le> m")
  case True
  with w show ?thesis by (simp add: base_send_def)
next
  case False
  then have m: "m < length (msgs w)" by simp
  from w False obtain r1 w1 where 1: "work om S (this_context (comps w ! c)) c m w = Some (r1, w1)"
    by (auto simp: base_send_def split: option.splits)
  note 2 = work_steps[OF S c m 1]
  show ?thesis
  proof (cases r1)
    case Normal
    with w False 1 2 show ?thesis by (simp add: base_send_def)
  next
    case (Throw e)
    with w False 1 have "call_callback c (Failure c m e) w1 = (r, w')"
      by (simp add: base_send_def)
    from 2 call_callback_steps[OF this, of om] show ?thesis by simp
  qed
qed

lemma send_method_steps:
  assumes S: "made_of_steps om S"
    and w: "send_method om S w c m = Some (r, w')"
  shows "(local_step om)\<^sup>*\<^sup>* w w'"
proof (cases "length (comps w) \<le> c")
  case True
  with w show ?thesis by (simp add: send_method_def)
next
  case False
  show ?thesis
  proof (cases "fn (comps w ! c) = Logger")
    case True
    with w False have "base_send om S (emit (Logged c m) w) c m = Some (r, w')"
      by (simp add: send_method_def)
    moreover have "c < length (comps (emit (Logged c m) w))"
      using False by (simp add: emit_def)
    ultimately have "(local_step om)\<^sup>*\<^sup>* (emit (Logged c m) w) w'"
      using base_send_steps[OF S] by blast
    moreover have "local_step om w (emit (Logged c m) w)"
      by (rule local_step.emits)
    ultimately show ?thesis by simp
  next
    case notLogger: False
    with w False have "base_send om S w c m = Some (r, w')" "c < length (comps w)"
      by (simp_all add: send_method_def)
    then show ?thesis
      using base_send_steps[OF S] by blast
  qed
qed

lemma send_steps: "send n om w c m = Some (r, w') \<Longrightarrow> (local_step om)\<^sup>*\<^sup>* w w'"
proof (induction n arbitrary: w c m r w')
  case 0
  then show ?case by simp
next
  case (Suc n)
  show ?case
    by (rule send_method_steps[of om "send n om"]) (use Suc in \<open>auto simp: made_of_steps_def\<close>)
qed

lemma turn_steps: "turn n om i w = Some (r, w') \<Longrightarrow> (local_step om)\<^sup>*\<^sup>* w w'"
proof (cases "i < length (tasks w)")
  case True
  let ?w = "w\<lparr>tasks := take i (tasks w) @ drop (Suc i) (tasks w)\<rparr>"
  assume t: "turn n om i w = Some (r, w')"
  have 1: "local_step om w ?w" by (rule local_step.takes)
  have "(local_step om)\<^sup>*\<^sup>* ?w w'"
  proof (cases "tasks w ! i")
    case (Immediate c m)
    with t True show ?thesis by (auto simp: turn_def intro: send_steps)
  next
    case (Timeout ms c m)
    with t True have "next_message (send n om) ?w c None m = Some (r, w')"
      by (simp add: turn_def)
    then show ?thesis
      by (rule next_message_steps[rotated]) (auto simp: made_of_steps_def intro: send_steps)
  qed
  with 1 show ?thesis by simp
next
  case False
  assume "turn n om i w = Some (r, w')"
  with False show ?thesis by (simp add: turn_def)
qed

lemma local_step_comps: "local_step om w w' \<Longrightarrow> comps w' = comps w"
  by (induction rule: local_step.induct)
    (auto simp: emit_def apply_map_def store_var_def restore_var_def combine_def upd_msg_def Let_def
      split: sum.splits prod.splits option.splits found.splits if_splits val.splits)

lemma steps_comps: "(local_step om)\<^sup>*\<^sup>* w w' \<Longrightarrow> comps w' = comps w"
  by (induction rule: rtranclp_induct) (auto dest: local_step_comps)

section \<open>Wiring and fan-out\<close>

lemma map_of_set_prop: "map_of (set_prop k v ps) = (map_of ps)(k \<mapsto> v)"
  by (induction ps) auto

lemma forEach_single: "forEach S [t] m w = S w t m"
  by (auto split: option.splits outcome.splits)

lemma forEach_append:
  "forEach S (ts @ us) m w =
     (case forEach S ts m w of
        None \<Rightarrow> None
      | Some (Throw e, w') \<Rightarrow> Some (Throw e, w')
      | Some (Normal, w') \<Rightarrow> forEach S us m w')"
  by (induction ts arbitrary: w) (auto split: option.splits outcome.splits)

lemma forEach_twice:
  "forEach S [t, t] m w =
     (case S w t m of
        None \<Rightarrow> None
      | Some (Throw e, w') \<Rightarrow> Some (Throw e, w')
      | Some (Normal, w') \<Rightarrow> S w' t m)"
  by (auto split: option.splits outcome.splits)

lemma default_not_inherited: "\<not> inherited ''default''"
  by (simp add: inherited_def object_prototype_names_def)

lemma find_prop_plain:
  "\<not> inherited k \<Longrightarrow>
     find_prop ps k = (case map_of ps k of Some x \<Rightarrow> Own x | None \<Rightarrow> Absent)"
  by (simp add: find_prop_def)

lemma connect_plain:
  assumes "\<not> inherited (channel_name ch)"
  shows "connect w c ch t =
    (Normal, w\<lparr>comps := (comps w)[c := (comps w ! c)\<lparr>channels :=
       set_prop (channel_name ch) (registered w c (channel_name ch) @ [t])
         (channels (comps w ! c))\<rparr>]\<rparr>)"
  using assms
  by (simp add: connect_def Let_def find_prop_plain registered_def split: option.splits)

lemma registered_connect:
  assumes "c < length (comps w)" and "\<not> inherited (channel_name ch)"
  shows "registered (snd (connect w c ch t)) c name =
       (if name = channel_name ch then registered w c name @ [t] else registered w c name)"
  using assms(1) by (simp add: connect_plain[OF assms(2)] registered_def map_of_set_prop)

lemma next_message_forEach:
  "\<not> inherited (channel_name ch) \<Longrightarrow>
     next_message S w c ch m = forEach S (registered w c (channel_name ch)) m w"
  by (simp add: next_message_def find_prop_plain registered_def split: option.splits)

text \<open>
  C3. The specification speaks of every channel. \<open>channels\<close> is made by \<open>{}\<close>, and under a
  name of \<open>Object.prototype\<close> the component finds the inherited member where the specification
  has an absent list. In the world below the component 0 has one target, under \<open>default\<close>.
  \<open>connect\<close> with the channel \<open>toString\<close> throws \<open>TypeError\<close> and registers nothing; \<open>next\<close>
  on the channel \<open>constructor\<close>, under which nothing is registered, throws \<open>TypeError\<close> where
  the specification has a silent no-op. So it is for each of the twelve names.
\<close>

theorem connect_fails_on_prototype_name:
  "registered round_trip_world 0 ''default'' = [1]
   \<and> fst (connect round_trip_world 0 (Some ''toString'') 1) = Throw TypeError
   \<and> registered (snd (connect round_trip_world 0 (Some ''toString'') 1)) 0 ''toString'' = []
   \<and> registered round_trip_world 0 ''constructor'' = []
   \<and> map_option fst (next_message (send 1 no_mapper) round_trip_world 0 (Some ''constructor'') 0)
       = Some (Throw TypeError)
   \<and> list_all (\<lambda>name. fst (connect round_trip_world 0 (Some name) 1) = Throw TypeError
         \<and> map_option fst (next_message (send 1 no_mapper) round_trip_world 0 (Some name) 0)
             = Some (Throw TypeError))
       [''constructor'', ''toString'', ''toLocaleString'', ''valueOf'', ''hasOwnProperty'',
        ''isPrototypeOf'', ''propertyIsEnumerable'', ''__proto__'', ''__defineGetter__'',
        ''__defineSetter__'', ''__lookupGetter__'', ''__lookupSetter__'']"
  by code_simp

text \<open>
  C3, as the code has it, for a channel \<open>name\<close> that \<open>Object.prototype\<close> does not have.
  \<open>connect\<close> and \<open>next\<close> called without a channel name use the channel \<open>default\<close>. \<open>connect\<close>
  returns; it puts the target at the end of the list registered under the name (the empty
  list, if there was none), registers a target once more when it is connected once more,
  leaves the lists under the other names and the other components as they were, and changes
  nothing of the world but the components and nothing of the component but its channels.
  \<open>next\<close> is \<open>forEach\<close> over the list registered under the name, with the \<open>send\<close> of each
  target on the one message \<open>m\<close>: it does nothing for the empty list, it is the \<open>send\<close> of
  the target for a list of one, twice the \<open>send\<close> of the target for a target registered
  twice, and for a list \<open>ts @ us\<close> it goes through \<open>ts\<close> and then through \<open>us\<close>, in the world
  that \<open>ts\<close> left. The loop runs while each \<open>send\<close> returns; an exception that leaves a
  \<open>send\<close> ends it.
\<close>

theorem connect_next_fan_out:
  assumes "c < length (comps w)" and "\<not> inherited name"
  shows "connect w c None t = connect w c (Some ''default'') t
    \<and> next_message (send n objectMapper) w c None m
        = next_message (send n objectMapper) w c (Some ''default'') m
    \<and> fst (connect w c (Some name) t) = Normal
    \<and> fst (connect w c None t) = Normal
    \<and> registered (snd (connect w c (Some name) t)) c name = registered w c name @ [t]
    \<and> registered (snd (connect w c None t)) c ''default'' = registered w c ''default'' @ [t]
    \<and> registered (snd (connect (snd (connect w c (Some name) t)) c (Some name) t)) c name
        = registered w c name @ [t, t]
    \<and> (name' \<noteq> name \<longrightarrow>
          registered (snd (connect w c (Some name) t)) c name' = registered w c name')
    \<and> (c' \<noteq> c \<longrightarrow> comps (snd (connect w c (Some name) t)) ! c' = comps w ! c')
    \<and> (snd (connect w c (Some name) t))\<lparr>comps := comps w\<rparr> = w
    \<and> (comps (snd (connect w c (Some name) t)) ! c)\<lparr>channels := channels (comps w ! c)\<rparr>
        = comps w ! c
    \<and> next_message (send n objectMapper) w c (Some name) m
        = forEach (send n objectMapper) (registered w c name) m w
    \<and> next_message (send n objectMapper) w c None m
        = forEach (send n objectMapper) (registered w c ''default'') m w
    \<and> (registered w c name = [] \<longrightarrow>
          next_message (send n objectMapper) w c (Some name) m = Some (Normal, w))
    \<and> forEach (send n objectMapper) [t] m w = send n objectMapper w t m
    \<and> forEach (send n objectMapper) [t, t] m w =
        (case send n objectMapper w t m of
           None \<Rightarrow> None
         | Some (Throw e, w') \<Rightarrow> Some (Throw e, w')
         | Some (Normal, w') \<Rightarrow> send n objectMapper w' t m)
    \<and> forEach (send n objectMapper) (ts @ us) m w =
        (case forEach (send n objectMapper) ts m w of
           None \<Rightarrow> None
         | Some (Throw e, w') \<Rightarrow> Some (Throw e, w')
         | Some (Normal, w') \<Rightarrow> forEach (send n objectMapper) us m w')"
proof -
  have nm: "\<not> inherited (channel_name (Some name))" "\<not> inherited (channel_name None)"
    using assms(2) default_not_inherited by (simp_all add: channel_name_def)
  have cn: "channel_name (Some name) = name" "channel_name None = ''default''"
    by (simp_all add: channel_name_def)
  have 1: "connect w c None t = connect w c (Some ''default'') t"
    by (simp add: connect_def channel_name_def)
  have 2: "next_message (send n objectMapper) w c None m
        = next_message (send n objectMapper) w c (Some ''default'') m"
    by (simp add: next_message_def channel_name_def)
  have 3: "fst (connect w c (Some name) t) = Normal" "fst (connect w c None t) = Normal"
    by (simp_all add: connect_plain[OF nm(1)] connect_plain[OF nm(2)])
  have 4: "registered (snd (connect w c (Some name) t)) c name = registered w c name @ [t]"
    using registered_connect[OF assms(1) nm(1), of t name] by (simp add: cn)
  have 5: "registered (snd (connect w c None t)) c ''default'' = registered w c ''default'' @ [t]"
    using registered_connect[OF assms(1) nm(2), of t "''default''"] by (simp add: cn)
  have len: "c < length (comps (snd (connect w c (Some name) t)))"
    using assms(1) by (simp add: connect_plain[OF nm(1)])
  have 6: "registered (snd (connect (snd (connect w c (Some name) t)) c (Some name) t)) c name
        = registered w c name @ [t, t]"
    using registered_connect[OF len nm(1), of t name] 4 by (simp add: cn)
  have 7: "name' \<noteq> name \<longrightarrow>
      registered (snd (connect w c (Some name) t)) c name' = registered w c name'"
    using registered_connect[OF assms(1) nm(1), of t name'] by (simp add: cn)
  have 8: "c' \<noteq> c \<longrightarrow> comps (snd (connect w c (Some name) t)) ! c' = comps w ! c'"
    by (simp add: connect_plain[OF nm(1)])
  have 9: "(snd (connect w c (Some name) t))\<lparr>comps := comps w\<rparr> = w"
    by (simp add: connect_plain[OF nm(1)])
  have 10: "(comps (snd (connect w c (Some name) t)) ! c)\<lparr>channels := channels (comps w ! c)\<rparr>
        = comps w ! c"
    using assms(1) by (simp add: connect_plain[OF nm(1)])
  have 11: "next_message (send n objectMapper) w c (Some name) m
        = forEach (send n objectMapper) (registered w c name) m w"
    using next_message_forEach[OF nm(1)] by (simp add: cn)
  have 12: "next_message (send n objectMapper) w c None m
        = forEach (send n objectMapper) (registered w c ''default'') m w"
    using next_message_forEach[OF nm(2)] by (simp add: cn)
  have 13: "registered w c name = [] \<longrightarrow>
      next_message (send n objectMapper) w c (Some name) m = Some (Normal, w)"
    by (simp add: 11)
  show ?thesis
    by (intro conjI 1 2 3 4 5 6 7 8 9 10 11 12 13 forEach_single forEach_twice forEach_append)
qed

text \<open>
  A variable-set component with one target under \<open>default\<close>: connecting the target under
  \<open>audit\<close> registers it there and leaves \<open>default\<close> as it was, connecting it again without a
  name registers it twice under \<open>default\<close>, and \<open>next\<close> on the component is the loop over
  what is registered.
\<close>

theorem connect_next_fan_out_witness:
  "0 < length (comps round_trip_world) \<and> \<not> inherited ''audit''
   \<and> registered round_trip_world 0 ''default'' = [1]
   \<and> registered round_trip_world 0 ''audit'' = []
   \<and> registered (snd (connect round_trip_world 0 (Some ''audit'') 1)) 0 ''audit'' = [1]
   \<and> registered (snd (connect round_trip_world 0 (Some ''audit'') 1)) 0 ''default'' = [1]
   \<and> registered (snd (connect round_trip_world 0 None 1)) 0 ''default'' = [1, 1]
   \<and> next_message (send 2 no_mapper) round_trip_world 0 None 0
        = forEach (send 2 no_mapper) [1] 0 round_trip_world"
proof -
  have 1: "0 < length (comps round_trip_world)" by code_simp
  have 2: "\<not> inherited ''audit''" by code_simp
  have 3: "registered round_trip_world 0 ''default'' = [1]" by code_simp
  have 4: "registered round_trip_world 0 ''audit'' = []" by code_simp
  have ne: "''default'' \<noteq> ''audit''" by simp
  note fan = connect_next_fan_out[OF 1 2, where t = 1 and n = 2 and objectMapper = no_mapper
      and m = 0 and name' = "''default''"]
  from fan have "registered (snd (connect round_trip_world 0 (Some ''audit'') 1)) 0 ''audit''
      = registered round_trip_world 0 ''audit'' @ [1]"
    by blast
  then have 5: "registered (snd (connect round_trip_world 0 (Some ''audit'') 1)) 0 ''audit'' = [1]"
    unfolding 4 by simp
  from fan ne have "registered (snd (connect round_trip_world 0 (Some ''audit'') 1)) 0 ''default''
      = registered round_trip_world 0 ''default''"
    by blast
  then have 6: "registered (snd (connect round_trip_world 0 (Some ''audit'') 1)) 0 ''default'' = [1]"
    unfolding 3 .
  from fan have "registered (snd (connect round_trip_world 0 None 1)) 0 ''default''
      = registered round_trip_world 0 ''default'' @ [1]"
    by blast
  then have 7: "registered (snd (connect round_trip_world 0 None 1)) 0 ''default'' = [1, 1]"
    unfolding 3 by simp
  from fan have "next_message (send 2 no_mapper) round_trip_world 0 None 0
      = forEach (send 2 no_mapper) (registered round_trip_world 0 ''default'') 0 round_trip_world"
    by blast
  then have 8: "next_message (send 2 no_mapper) round_trip_world 0 None 0
      = forEach (send 2 no_mapper) [1] 0 round_trip_world"
    unfolding 3 .
  from 1 2 3 4 5 6 7 8 show ?thesis by blast
qed

section \<open>The variable component chosen by \<open>createVarComponent\<close>\<close>

lemma upper_char_S: "upper_char c = CHR ''S'' \<longleftrightarrow> c = CHR ''s'' \<or> c = CHR ''S''"
  by (auto simp: upper_char_def split: if_splits)

lemma upper_char_E: "upper_char c = CHR ''E'' \<longleftrightarrow> c = CHR ''e'' \<or> c = CHR ''E''"
  by (auto simp: upper_char_def split: if_splits)

lemma upper_char_T: "upper_char c = CHR ''T'' \<longleftrightarrow> c = CHR ''t'' \<or> c = CHR ''T''"
  by (auto simp: upper_char_def split: if_splits)

lemma toUpperCase_SET:
  "toUpperCase s = ''SET'' \<longleftrightarrow>
     s \<in> {''set'', ''seT'', ''sEt'', ''sET'', ''Set'', ''SeT'', ''SEt'', ''SET''}"
proof -
  have "toUpperCase s = ''SET'' \<longleftrightarrow>
      (\<exists>a b c. s = [a, b, c] \<and> upper_char a = CHR ''S'' \<and> upper_char b = CHR ''E'' \<and> upper_char c = CHR ''T'')"
    by (auto simp: toUpperCase_def map_eq_Cons_conv)
  then show ?thesis
    unfolding upper_char_S upper_char_E upper_char_T by auto
qed

text \<open>
  C10. \<open>createVarComponent\<close> returns a component for every name and every operation
  string: the next component of the world, made without a callback. The test in the code,
  \<open>operation.toUpperCase() == 'SET'\<close>, holds for the eight spellings of \<open>set\<close> and for no
  other string. The component is a variable-set component when it holds and a variable-get
  component when it does not.
\<close>

theorem createVarComponent_kind:
  "fst (createVarComponent variableName operation w) = length (comps w)
   \<and> length (comps (snd (createVarComponent variableName operation w))) = Suc (length (comps w))
   \<and> (toUpperCase operation = ''SET'')
       = (operation \<in> {''set'', ''seT'', ''sEt'', ''sET'', ''Set'', ''SeT'', ''SEt'', ''SET''})
   \<and> fn (comps (snd (createVarComponent variableName operation w)) ! length (comps w)) =
       (if operation \<in> {''set'', ''seT'', ''sEt'', ''sET'', ''Set'', ''SeT'', ''SEt'', ''SET''}
        then VarSet variableName else VarGet variableName)"
  unfolding toUpperCase_SET[symmetric]
  by (simp add: createVarComponent_def ESBComponent_def toUpperCase_SET)

text \<open>\<open>sEt\<close> makes a variable-set component, the misspelt \<open>sett\<close> a variable-get component.\<close>

theorem createVarComponent_kind_witness:
  "fn (comps (snd (createVarComponent ''snap'' ''sEt'' empty_world)) ! 0) = VarSet ''snap''
   \<and> fn (comps (snd (createVarComponent ''snap'' ''sett'' empty_world)) ! 0) = VarGet ''snap''"
  using createVarComponent_kind[of "''snap''" "''sEt''" empty_world]
    createVarComponent_kind[of "''snap''" "''sett''" empty_world]
  by (simp add: empty_world_def)

section \<open>The context argument, deferral, failures\<close>

lemma send_comps: "send n om w c m = Some (r, w') \<Longrightarrow> comps w' = comps w"
  by (rule steps_comps[OF send_steps])

lemma turn_comps: "turn n om i w = Some (r, w') \<Longrightarrow> comps w' = comps w"
  by (rule steps_comps[OF turn_steps])

lemma ESBComponent_comps:
  "comps (snd (ESBComponent f cb w)) =
     comps w @ [\<lparr>fn = f, ident = uuids w, channels = [], callback = cb, others = []\<rparr>]"
  by (simp add: ESBComponent_def)

lemma ESBComponent_others:
  assumes "\<forall>c<length (comps w). others (comps w ! c) = []"
  shows "\<forall>c<length (comps (snd (ESBComponent f cb w))). others (comps (snd (ESBComponent f cb w)) ! c) = []"
  using assms by (auto simp: ESBComponent_comps nth_append)

lemma built_others: "built w \<Longrightarrow> \<forall>c<length (comps w). others (comps w ! c) = []"
proof (induction rule: built.induct)
  case (nothing w)
  then show ?case by simp
next
  case (var w variableName operation)
  then show ?case
    using ESBComponent_others[of w] by (simp add: createVarComponent_def)
next
  case (connected w c ch target)
  then show ?case
    by (cases "c < length (comps w)")
      (auto simp: connect_def Let_def nth_list_update split: found.splits)
next
  case (message w now p callerUser callerSystem callerCorrelationId)
  then show ?case
    by (auto simp: createMessage_def split: prod.splits)
next
  case (sent w n objectMapper c m r w')
  then show ?case by (simp add: send_comps)
next
  case (posted w c m)
  then show ?case by (simp add: post_def)
next
  case (turned w n objectMapper i r w')
  then show ?case by (simp add: turn_comps)
next
  case (changed w h ms)
  then show ?case by simp
qed (use ESBComponent_others in \<open>simp_all only: createLoggerComponent_def createMapperComponent_def
      createSleepComponent_def createCombineComponent_def createCallComponent_def
      createResultComponent_def\<close>)

text \<open>
  C9. In a world built by the functions of the module no component has a property
  \<open>context\<close>: no constructor assigns one, and neither \<open>connect\<close> nor \<open>send\<close>, \<open>post\<close> or a
  turn of the event loop does. So \<open>this.context\<close> is \<open>undefined\<close>, and this is the first
  argument with which \<open>send\<close> calls the function of the component.
\<close>

theorem send_passes_undefined_context:
  assumes "built w" and "c < length (comps w)"
  shows "this_context (comps w ! c) = VUndefined
    \<and> base_send objectMapper S w c m =
        (if length (msgs w) \<le> m then Some (Throw TypeError, w)
         else case work objectMapper S VUndefined c m w of
                None \<Rightarrow> None
              | Some (Normal, w') \<Rightarrow> Some (Normal, w')
              | Some (Throw error, w') \<Rightarrow> Some (call_callback c (Failure c m error) w'))"
proof -
  from built_others[OF assms(1)] assms(2) have "others (comps w ! c) = []" by simp
  then have "this_context (comps w ! c) = VUndefined"
    by (simp add: this_context_def get_prop_def)
  then show ?thesis by (simp add: base_send_def)
qed

lemma built_round_trip_world: "built round_trip_world"
  unfolding round_trip_world_def
  by (intro built.connected built.var built.message built.nothing) (simp add: example_world_def)

theorem send_passes_undefined_context_witness:
  "built round_trip_world \<and> 0 < length (comps round_trip_world)
   \<and> this_context (comps round_trip_world ! 0) = VUndefined"
proof -
  have 1: "0 < length (comps round_trip_world)" by code_simp
  from send_passes_undefined_context[OF built_round_trip_world 1] built_round_trip_world 1
  show ?thesis by blast
qed

text \<open>
  C8. \<open>post\<close> with a message returns at once. The world it leaves is the world it found,
  but for the function left pending: store, messages, components and trace are as they
  were, so nothing that the component does has happened yet. The turn of the event loop
  that takes the pending function up is \<open>send\<close> on the world of that moment; taken up
  right away, it is \<open>send\<close> on the world in which \<open>post\<close> was called.
\<close>

theorem post_defers_send:
  assumes "m < length (msgs w)"
  shows "post w c m = (Normal, w\<lparr>tasks := tasks w @ [Immediate c m]\<rparr>)
    \<and> store (snd (post w c m)) = store w \<and> msgs (snd (post w c m)) = msgs w
    \<and> comps (snd (post w c m)) = comps w \<and> trace (snd (post w c m)) = trace w
    \<and> turn n objectMapper (length (tasks w)) (snd (post w c m)) = send n objectMapper w c m
    \<and> (i < length (tasks w2) \<and> tasks w2 ! i = Immediate c m \<longrightarrow>
         turn n objectMapper i w2 =
           send n objectMapper (w2\<lparr>tasks := take i (tasks w2) @ drop (Suc i) (tasks w2)\<rparr>) c m)"
  using assms by (simp add: post_def turn_def)

theorem post_defers_send_witness:
  "0 < length (msgs round_trip_world)
   \<and> fst (post round_trip_world 0 0) = Normal
   \<and> tasks (snd (post round_trip_world 0 0)) = [Immediate 0 0]
   \<and> trace (snd (post round_trip_world 0 0)) = trace round_trip_world
   \<and> turn 3 no_mapper 0 (snd (post round_trip_world 0 0)) = send 3 no_mapper round_trip_world 0 0"
proof -
  have 1: "0 < length (msgs round_trip_world)" by code_simp
  have 2: "tasks round_trip_world = []" by code_simp
  note deferred = post_defers_send[OF 1, where c = 0 and n = 3 and objectMapper = no_mapper]
  from deferred have "post round_trip_world 0 0
      = (Normal, round_trip_world\<lparr>tasks := tasks round_trip_world @ [Immediate 0 0]\<rparr>)"
    by blast
  then have 3: "fst (post round_trip_world 0 0) = Normal"
    and 4: "tasks (snd (post round_trip_world 0 0)) = [Immediate 0 0]"
    by (simp_all add: 2)
  from deferred have 5: "trace (snd (post round_trip_world 0 0)) = trace round_trip_world"
    by blast
  from deferred have "turn 3 no_mapper (length (tasks round_trip_world)) (snd (post round_trip_world 0 0))
      = send 3 no_mapper round_trip_world 0 0"
    by blast
  then have 6: "turn 3 no_mapper 0 (snd (post round_trip_world 0 0))
      = send 3 no_mapper round_trip_world 0 0"
    unfolding 2 by (simp only: list.size)
  from 1 3 4 5 6 show ?thesis by blast
qed

text \<open>
  What the \<open>catch\<close> of \<open>send\<close> does with an error of the function: with a callback that
  returns, the failure record goes to it once and \<open>send\<close> returns; with no callback, the
  call of \<open>this.callback\<close> is a \<open>TypeError\<close> that leaves \<open>send\<close>.
\<close>

lemma base_send_reports:
  assumes "m < length (msgs w)"
    and "work objectMapper S (this_context (comps w ! c)) c m w = Some (Throw e, w1)"
    and "callback (comps w1 ! c) = Some cb" and "cb (Failure c m e) = None"
  shows "base_send objectMapper S w c m = Some (Normal, emit (Failure c m e) w1)"
  using assms by (simp add: base_send_def call_callback_def)

lemma base_send_no_callback:
  assumes "m < length (msgs w)"
    and "work objectMapper S (this_context (comps w ! c)) c m w = Some (Throw e, w1)"
    and "callback (comps w1 ! c) = None"
  shows "base_send objectMapper S w c m = Some (Throw TypeError, w1)"
  using assms by (simp add: base_send_def call_callback_def)

text \<open>
  C1. The specification says that an error raised by the function of a component never leaves
  \<open>send\<close>: it is caught, goes once to the callback of the component as a failure record,
  and nothing is forwarded. The constructors of the mapper, sleep, variable and combine
  components pass no callback to \<open>ESBComponent\<close>, though, and there this does not hold. A
  combine component made by \<open>createCombineComponent\<close> is sent a message made by
  \<open>createMessage(null)\<close>: \<open>Object.assign\<close> throws on the \<open>null\<close> payload, the \<open>catch\<close> calls
  the callback that is not there, and \<open>send\<close> throws \<open>TypeError\<close> to its caller. No failure
  record has been delivered.
\<close>

theorem send_combine_null_payload:
  "fn (comps null_payload_world ! 0) = Combine ''v''
   \<and> callback (comps null_payload_world ! 0) = None
   \<and> payload (msgs null_payload_world ! 0) = VNull
   \<and> map_option (\<lambda>rw. (fst rw, trace (snd rw))) (send 1 no_mapper null_payload_world 0 0)
       = Some (Throw TypeError, [])"
  by (simp add: null_payload_world_def createCombineComponent_def ESBComponent_def createMessage_def
      empty_world_def send_method_def base_send_def work_def combine_def assign_def find_prop_def
      inherited_def object_prototype_names_def call_callback_def Let_def)

section \<open>Property lists and growing stores\<close>






lemma get_prop_wf: "wf_obj n ps \<Longrightarrow> wf_val n (get_prop ps k)"
  by (auto simp: get_prop_def split: option.splits dest!: map_of_SomeD wf_obj_valD)

lemma get_prop_in: "truthy (get_prop ps k) \<Longrightarrow> (k, get_prop ps k) \<in> set ps"
  by (auto simp: get_prop_def split: option.splits dest: map_of_SomeD)


lemma clone_prim: "\<forall>a. v \<noteq> VRef a \<Longrightarrow> clone h v = (v, h)"
  by (cases v) auto

lemma reach_agree:
  assumes "closed h S" "\<forall>a. v = VRef a \<longrightarrow> a \<in> S" "\<forall>a\<in>S. a < length h' \<and> h' ! a = h ! a"
  shows "reach h' v = reach h v"
proof -
  have 1: "x \<in> reach h v \<and> x \<in> S" if "x \<in> reach h' v" for x
    using that
  proof induction
    case (root a)
    with assms(2) show ?case by (auto intro: reach.root)
  next
    case (step a k b)
    then have "a \<in> S" "a \<in> reach h v" by simp_all
    with assms(1,3) step.hyps(3) have "a < length h" "(k, VRef b) \<in> set (h ! a)" "b \<in> S"
      by (auto simp: closed_def)
    with \<open>a \<in> reach h v\<close> show ?case by (auto intro: reach.step)
  qed
  have 2: "x \<in> reach h' v" if "x \<in> reach h v" for x
    using that
  proof induction
    case (root a)
    then show ?case by (auto intro: reach.root)
  next
    case (step a k b)
    have "a \<in> S" using reach_closed[OF assms(1,2)] step.hyps(1) by auto
    with assms(3) step.hyps(3) have "a < length h'" "(k, VRef b) \<in> set (h' ! a)"
      by auto
    with step.IH show ?case by (auto intro: reach.step)
  qed
  from 1 2 show ?thesis by blast
qed

lemma extends_refl: "extends h h"
  by (simp add: extends_def)

lemma extends_trans: "extends h h' \<Longrightarrow> extends h' h'' \<Longrightarrow> extends h h''"
  by (auto simp: extends_def)

lemma clone_extends: "clone h v = (v', h') \<Longrightarrow> extends h h'"
  by (auto simp: extends_def dest: clone_length clone_old)

lemma extends_view:
  assumes "wf_store h" "wf_val (length h) v" "extends h h'"
  shows "view d h' v = view d h v"
  using assms by (intro view_frame[OF closed_wf wf_val_root]) (auto simp: extends_def)

lemma extends_reach:
  assumes "wf_store h" "wf_val (length h) v" "extends h h'"
  shows "reach h' v = reach h v"
  using assms by (intro reach_agree[OF closed_wf wf_val_root]) (auto simp: extends_def)

lemma reach_wf:
  assumes "wf_store h" "wf_val (length h) v"
  shows "reach h v \<subseteq> {0..<length h}"
  by (rule reach_closed[OF closed_wf[OF assms(1)] wf_val_root[OF assms(2)]])

section \<open>Variable-get\<close>


lemma find_prop_truthy: "truthy (get_prop ps k) \<Longrightarrow> find_prop ps k = Own (get_prop ps k)"
  by (auto simp: find_prop_def get_prop_def split: option.splits)

lemma restore_var_falsy:
  "\<not> inherited name \<Longrightarrow> \<not> truthy (get_prop (vars (msgs w ! m)) name) \<Longrightarrow>
     restore_var name m w = Some w"
  by (auto simp: restore_var_def find_prop_def get_prop_def split: option.splits)

lemma restore_var_truthy:
  assumes "truthy (get_prop (vars (msgs w ! m)) name)"
    and "clone (store w) (get_prop (vars (msgs w ! m)) name) = (copy, h)"
  shows "restore_var name m w =
           Some (w\<lparr>store := h, msgs := (msgs w)[m := (msgs w ! m)\<lparr>payload := copy\<rparr>]\<rparr>)"
  using assms by (simp add: restore_var_def find_prop_truthy upd_msg_def)




text \<open>
  C5. The specification says: if \<open>vars[n]\<close> exists, variable-get overwrites the payload with a deep
  copy of it. The code tests \<open>if (message.vars[this.variableName])\<close>, and a variable that
  holds \<open>0\<close> does not pass: the message below has \<open>vars.n = 0\<close> and the payload \<open>5\<close>, and
  after \<open>send\<close> on a variable-get component for \<open>n\<close> the payload is still \<open>5\<close>.
\<close>

theorem varget_keeps_payload_on_zero:
  "map_of (vars (msgs (var_world empty_world (VNum 0) (VNum 5)) ! 0)) ''n'' = Some (VNum 0)
   \<and> payload (msgs (var_world empty_world (VNum 0) (VNum 5)) ! 0) = VNum 5
   \<and> map_option (\<lambda>rw. (fst rw, payload (msgs (snd rw) ! 0)))
        (send 1 no_mapper (var_world empty_world (VNum 0) (VNum 5)) 0 0) = Some (Normal, VNum 5)"
  by code_simp

text \<open>
  C5, as the code has it, for a variable \<open>name\<close> that \<open>Object.prototype\<close> does not have and a
  store of plain objects. A variable-get component for \<open>name\<close> does its change to the
  message and then calls \<open>next\<close> once, on the default channel. When \<open>vars[name]\<close> is true as a
  condition (every object is; \<open>undefined\<close>, \<open>null\<close>, \<open>false\<close>, \<open>0\<close> and the empty string are
  not), the payload becomes a deep copy of it: it reads back the same at every depth, it
  is made of new objects and shares none with the variable; the objects that existed stay
  as they were, and nothing of the world changes but the store and the payload of the
  message. Otherwise, the variable being absent or not true, nothing changes.
\<close>

theorem varget_restores:
  assumes wf: "wf_store (store w)" "wf_obj (length (store w)) (vars (msgs w ! m))"
    and plain: "plain_store (store w)"
    and m: "m < length (msgs w)"
    and c: "fn (comps w ! c) = VarGet name"
    and n: "\<not> inherited name"
  shows "\<exists>w1. restore_var name m w = Some w1
    \<and> work objectMapper S ctx c m w = next_message S w1 c None m
    \<and> (truthy (get_prop (vars (msgs w ! m)) name) \<longrightarrow>
         view d (store w1) (payload (msgs w1 ! m))
           = view d (store w) (get_prop (vars (msgs w ! m)) name)
       \<and> reach (store w1) (payload (msgs w1 ! m))
           \<inter> reach (store w1) (get_prop (vars (msgs w ! m)) name) = {}
       \<and> reach (store w1) (payload (msgs w1 ! m)) \<inter> {0..<length (store w)} = {}
       \<and> extends (store w) (store w1)
       \<and> msgs w1 = (msgs w)[m := (msgs w ! m)\<lparr>payload := payload (msgs w1 ! m)\<rparr>]
       \<and> w1\<lparr>store := store w, msgs := msgs w\<rparr> = w)
    \<and> (\<not> truthy (get_prop (vars (msgs w ! m)) name) \<longrightarrow> w1 = w)"
proof (cases "truthy (get_prop (vars (msgs w ! m)) name)")
  case False
  from restore_var_falsy[OF n False] c False show ?thesis
    by (simp add: work_def)
next
  case True
  let ?v = "get_prop (vars (msgs w ! m)) name"
  obtain copy h where cl: "clone (store w) ?v = (copy, h)"
    by (cases "clone (store w) ?v")
  let ?w1 = "w\<lparr>store := h, msgs := (msgs w)[m := (msgs w ! m)\<lparr>payload := copy\<rparr>]\<rparr>"
  note eq = restore_var_truthy[OF True cl]
  have 1: "work objectMapper S ctx c m w = next_message S ?w1 c None m"
    using c by (simp add: work_def eq)
  have wfv: "wf_val (length (store w)) ?v"
    by (rule get_prop_wf[OF wf(2)])
  have ext: "extends (store w) h" by (rule clone_extends[OF cl])
  have fresh: "reach h copy \<subseteq> {length (store w)..<length h}"
    by (rule clone_fresh[OF wf(1) wfv cl])
  have "reach h ?v \<subseteq> {0..<length (store w)}"
    using extends_reach[OF wf(1) wfv ext] reach_wf[OF wf(1) wfv] by simp
  with fresh have 2: "reach h copy \<inter> reach h ?v = {}" by fastforce
  from fresh have 3: "reach h copy \<inter> {0..<length (store w)} = {}" by fastforce
  have 4: "view d h copy = view d (store w) ?v"
    by (rule clone_view[OF wf(1) wfv cl])
  have p: "payload (msgs ?w1 ! m) = copy" and s: "store ?w1 = h"
    using m by simp_all
  have 5: "msgs ?w1 = (msgs w)[m := (msgs w ! m)\<lparr>payload := payload (msgs ?w1 ! m)\<rparr>]"
    unfolding p by simp
  have 6: "?w1\<lparr>store := store w, msgs := msgs w\<rparr> = w" by simp
  show ?thesis
  proof (intro exI[of _ ?w1] conjI impI)
    show "restore_var name m w = Some ?w1" by (rule eq)
    show "work objectMapper S ctx c m w = next_message S ?w1 c None m" by (rule 1)
    show "view d (store ?w1) (payload (msgs ?w1 ! m)) = view d (store w) ?v"
      unfolding p s by (rule 4)
    show "reach (store ?w1) (payload (msgs ?w1 ! m)) \<inter> reach (store ?w1) ?v = {}"
      unfolding p s by (rule 2)
    show "reach (store ?w1) (payload (msgs ?w1 ! m)) \<inter> {0..<length (store w)} = {}"
      unfolding p s by (rule 3)
    show "extends (store w) (store ?w1)" unfolding s by (rule ext)
    show "msgs ?w1 = (msgs w)[m := (msgs w ! m)\<lparr>payload := payload (msgs ?w1 ! m)\<rparr>]"
      by (rule 5)
    show "?w1\<lparr>store := store w, msgs := msgs w\<rparr> = w" by (rule 6)
    show "?w1 = w" if "\<not> truthy ?v" using that True by simp
  qed
qed

text \<open>
  The variable \<open>n\<close> holds a copy of \<open>{a: 1}\<close> and the payload is \<open>null\<close>: variable-get makes
  the payload read \<open>{a: 1}\<close>.
\<close>

theorem varget_restores_witness:
  "wf_store (store (var_world example_world (VRef 0) VNull))
   \<and> wf_obj (length (store (var_world example_world (VRef 0) VNull)))
        (vars (msgs (var_world example_world (VRef 0) VNull) ! 0))
   \<and> plain_store (store (var_world example_world (VRef 0) VNull))
   \<and> 0 < length (msgs (var_world example_world (VRef 0) VNull))
   \<and> fn (comps (var_world example_world (VRef 0) VNull) ! 0) = VarGet ''n''
   \<and> \<not> inherited ''n''
   \<and> truthy (get_prop (vars (msgs (var_world example_world (VRef 0) VNull) ! 0)) ''n'')
   \<and> payload (msgs (var_world example_world (VRef 0) VNull) ! 0) = VNull
   \<and> (\<exists>w1. restore_var ''n'' 0 (var_world example_world (VRef 0) VNull) = Some w1
         \<and> view 1 (store w1) (payload (msgs w1 ! 0)) = TObj [(''a'', TNum 1)])"
proof -
  let ?w = "var_world example_world (VRef 0) VNull"
  have 1: "wf_store (store ?w)" by code_simp
  have 2: "wf_obj (length (store ?w)) (vars (msgs ?w ! 0))" by code_simp
  have 3: "plain_store (store ?w)" by code_simp
  have 4: "0 < length (msgs ?w)" by code_simp
  have 5: "fn (comps ?w ! 0) = VarGet ''n''" by code_simp
  have 6: "\<not> inherited ''n''" by code_simp
  have 7: "truthy (get_prop (vars (msgs ?w ! 0)) ''n'')" by code_simp
  have 8: "payload (msgs ?w ! 0) = VNull" by code_simp
  have 9: "view 1 (store ?w) (get_prop (vars (msgs ?w ! 0)) ''n'') = TObj [(''a'', TNum 1)]"
    by code_simp
  from varget_restores[OF 1 2 3 4 5 6, of no_mapper "send 0 no_mapper" VUndefined 1]
  obtain w1 where "restore_var ''n'' 0 ?w = Some w1"
    and "truthy (get_prop (vars (msgs ?w ! 0)) ''n'') \<longrightarrow>
      view 1 (store w1) (payload (msgs w1 ! 0))
        = view 1 (store ?w) (get_prop (vars (msgs ?w ! 0)) ''n'')"
    by blast
  with 7 9 have 10: "\<exists>w1. restore_var ''n'' 0 ?w = Some w1
      \<and> view 1 (store w1) (payload (msgs w1 ! 0)) = TObj [(''a'', TNum 1)]"
    by auto
  show ?thesis by (intro conjI 1 2 3 4 5 6 7 8 10)
qed

section \<open>The round trip through a variable\<close>

lemma closed_agree:
  assumes "closed h S" "\<forall>a\<in>S. a < length h' \<and> h' ! a = h ! a"
  shows "closed h' S"
  using assms by (auto simp: closed_def)




section \<open>Merge\<close>

declare digits.simps [simp del]

















section \<open>Variables and payload stay apart\<close>
















end
